theory Spec2Isabelle
  imports Main "HOL-Library.Sublist" "HOL-Library.Multiset"
begin

section \<open>Strings of the Go runtime\<close>

text \<open>
  A Go string is a sequence of bytes; it is modelled as a \<^typ>\<open>string\<close>, whose
  characters are bytes.  \<open>strings.HasPrefix\<close> is \<^const>\<open>prefix\<close>.
\<close>

subsection \<open>\<open>utf8.DecodeRuneInString\<close>: the width of the first rune\<close>

text \<open>
  \<open>strings.ReplaceAll\<close> with an empty \<open>old\<close> inserts \<open>new\<close> at every rune boundary, so
  the width that \<open>utf8.DecodeRuneInString\<close> reports for the first rune of a non-empty
  string is needed: 1 for an ASCII byte and for every invalid or truncated encoding,
  otherwise the length of the well-formed UTF-8 sequence.
\<close>

definition runeWidth :: "string \<Rightarrow> nat" where
  "runeWidth s =
     (let n = length s;
          b = (\<lambda>i. (of_char (s ! i) :: nat));
          s0 = b 0
      in if s0 < 0x80 then 1
         else if s0 < 0xC2 \<or> 0xF4 < s0 then 1
         else
           let sz = (if s0 < 0xE0 then 2 else if s0 < 0xF0 then 3 else (4::nat));
               lo = (if s0 = 0xE0 then 0xA0 else if s0 = 0xF0 then 0x90 else (0x80::nat));
               hi = (if s0 = 0xED then 0x9F else if s0 = 0xF4 then 0x8F else (0xBF::nat))
           in if n < sz then 1
              else if b 1 < lo \<or> hi < b 1 then 1
              else if sz \<le> 2 then 2
              else if b 2 < 0x80 \<or> 0xBF < b 2 then 1
              else if sz \<le> 3 then 3
              else if b 3 < 0x80 \<or> 0xBF < b 3 then 1
              else 4)"

subsection \<open>\<open>strings.ReplaceAll\<close>\<close>

text \<open>
  With an empty \<open>old\<close>, \<open>new\<close> is written before the first rune and after every rune
  (\<open>k + 1\<close> replacements for a \<open>k\<close>-rune string).
\<close>

function insertAtRunes :: "string \<Rightarrow> string \<Rightarrow> string" where
  "insertAtRunes s new =
     (if s = [] then new
      else new @ take (runeWidth s) s @ insertAtRunes (drop (runeWidth s) s) new)"
  by pat_completeness auto
termination
  by (relation "measure (\<lambda>(s, new). length s)") (auto simp: runeWidth_def Let_def)

declare insertAtRunes.simps [simp del]

text \<open>
  With a non-empty \<open>old\<close>, the text is scanned from the left; every instance of \<open>old\<close>
  found is replaced by \<open>new\<close> and the scan resumes behind it, so the instances replaced
  do not overlap.
\<close>

function ReplaceAll :: "string \<Rightarrow> string \<Rightarrow> string \<Rightarrow> string" where
  "ReplaceAll s old new =
     (if old = [] then insertAtRunes s new
      else if s = [] then []
      else if prefix old s then new @ ReplaceAll (drop (length old) s) old new
      else hd s # ReplaceAll (tl s) old new)"
  by pat_completeness auto
termination
  by (relation "measure (\<lambda>(s, old, new). length s)") auto

declare ReplaceAll.simps [simp del]

text \<open>\<open>strings.Contains\<close>: \<open>sub\<close> occurs somewhere in \<open>s\<close>.\<close>

fun Contains :: "string \<Rightarrow> string \<Rightarrow> bool" where
  "Contains [] sub = (sub = [])"
| "Contains (c # cs) sub = (prefix sub (c # cs) \<or> Contains cs sub)"

subsection \<open>\<open>fmt.Sprintf("KW%dPLH", i)\<close>\<close>

definition digit :: "nat \<Rightarrow> char" where
  "digit d = char_of (48 + d)"

function itoa :: "nat \<Rightarrow> string" where
  "itoa n = (if n < 10 then [digit n] else itoa (n div 10) @ [digit (n mod 10)])"
  by pat_completeness auto
termination
  by (relation "measure id") auto

declare itoa.simps [simp del]

definition Sprintf_KWdPLH :: "nat \<Rightarrow> string" where
  "Sprintf_KWdPLH i = ''KW'' @ itoa i @ ''PLH''"

text \<open>
  The characters of a token behind its leading \<open>K\<close> are \<open>W\<close>, decimal digits, \<open>P\<close>,
  \<open>L\<close> and \<open>H\<close>.
\<close>

definition isDigit :: "char \<Rightarrow> bool" where
  "isDigit c \<longleftrightarrow> (48::nat) \<le> of_char c \<and> of_char c \<le> (57::nat)"

definition tokenChar :: "char \<Rightarrow> bool" where
  "tokenChar c \<longleftrightarrow>
     c = CHR ''W'' \<or> c = CHR ''P'' \<or> c = CHR ''L'' \<or> c = CHR ''H'' \<or> isDigit c"






section \<open>Shielding and unshielding of keywords\<close>

text \<open>
  The Go map \<open>placeholderMap\<close> is a partial function from placeholder to keyword.  The
  loop of \<open>replaceKeywordsWithPlaceholders\<close> carries the index \<open>i\<close>, the current text
  and the map.
\<close>

type_synonym placeholderMap = "string \<rightharpoonup> string"

fun shieldLoop :: "nat \<Rightarrow> string \<Rightarrow> string list \<Rightarrow> placeholderMap \<Rightarrow> string \<times> placeholderMap" where
  "shieldLoop i text [] placeholderMap = (text, placeholderMap)"
| "shieldLoop i text (keyword # keywords) placeholderMap =
     (let placeholder = Sprintf_KWdPLH i;
          text' = ReplaceAll text keyword placeholder
      in shieldLoop (Suc i) text' keywords (placeholderMap(placeholder \<mapsto> keyword)))"

definition replaceKeywordsWithPlaceholders :: "string \<Rightarrow> string list \<Rightarrow> string \<times> placeholderMap" where
  "replaceKeywordsWithPlaceholders text keywords = shieldLoop 0 text keywords Map.empty"

text \<open>The entries that the loop started at index \<open>i\<close> records, in the order of the keywords.\<close>

fun recorded :: "nat \<Rightarrow> string list \<Rightarrow> (string \<times> string) list" where
  "recorded i [] = []"
| "recorded i (keyword # keywords) = (Sprintf_KWdPLH i, keyword) # recorded (Suc i) keywords"

text \<open>
  A \<open>range\<close> loop over a Go map visits every entry once, in an order that the runtime
  chooses anew for every loop.  \<open>rangeOrder m es\<close> says that \<open>es\<close> is such a visiting order
  of \<open>m\<close>; \<open>replacePlaceholdersWithKeywords\<close> takes the order of its loop as an argument.
\<close>

definition rangeOrder :: "('k \<rightharpoonup> 'v) \<Rightarrow> ('k \<times> 'v) list \<Rightarrow> bool" where
  "rangeOrder m es \<longleftrightarrow> distinct (map fst es) \<and> map_of es = m"

definition replacePlaceholdersWithKeywords :: "string \<Rightarrow> (string \<times> string) list \<Rightarrow> string" where
  "replacePlaceholdersWithKeywords text entries =
     fold (\<lambda>(placeholder, keyword) text. ReplaceAll text placeholder keyword) entries text"


section \<open>Events, the translator and the two handlers\<close>

record EventInfo =
  Name :: string
  Location :: string
  Details :: string
  LinkNames :: "string \<rightharpoonup> string"
  SponsoredMessage :: string
  Languages :: "string list"
  Keywords :: "string list"
  Translations :: "string \<rightharpoonup> string"

text \<open>
  A \<open>TranslationResponse\<close> holds a list of translations, each with one field \<open>Text\<close>; it
  is modelled as the list of these texts.
\<close>

type_synonym TranslationResponse = "string list"

record request =
  Method :: string
  URL :: string
  Header :: "(string \<times> string) list"
  ReqBody :: string

text \<open>
  What \<open>client.Do\<close> hands back when it does not fail: the status code and what
  \<open>ioutil.ReadAll\<close> gets from the body, an error or the bytes read.
\<close>

record httpResponse =
  StatusCode :: nat
  Body :: "string + string"

text \<open>
  The library calls of \<open>translateText\<close> and the runtime's choice of visiting orders are
  parameters.  An error is the text that \<open>%v\<close> prints for it, and \<open>Inl\<close> carries it.  Only
  \<open>client.Do\<close> touches the network, whose state has the type \<open>'w\<close>.  \<open>mapRange n m\<close>
  is the order in which the \<open>n\<close>-th \<open>range\<close> loop over a map that a request runs visits the
  map \<open>m\<close>.
\<close>

record 'w env =
  json_Marshal :: "string \<Rightarrow> string + string"
  http_NewRequest :: "string \<Rightarrow> string \<Rightarrow> string \<Rightarrow> string + request"
  client_Do :: "request \<Rightarrow> 'w \<Rightarrow> (string + httpResponse) \<times> 'w"
  json_Unmarshal :: "string \<Rightarrow> string + TranslationResponse list"
  mapRange :: "nat \<Rightarrow> (string \<rightharpoonup> string) \<Rightarrow> (string \<times> string) list"

definition Header_Add :: "string \<Rightarrow> string \<Rightarrow> request \<Rightarrow> request" where
  "Header_Add key v req = req\<lparr>Header := Header req @ [(key, v)]\<rparr>"

definition translateText ::
  "'w env \<Rightarrow> string \<Rightarrow> string \<Rightarrow> string \<Rightarrow> string \<Rightarrow> string \<Rightarrow> 'w \<Rightarrow> (string + string) \<times> 'w" where
  "translateText env text targetLanguage url subscriptionKey location w =
     (case json_Marshal env text of
        Inl err \<Rightarrow> (Inl (''error marshaling json: '' @ err), w)
      | Inr jsonBody \<Rightarrow>
     (case http_NewRequest env ''POST'' (url @ ''&to='' @ targetLanguage) jsonBody of
        Inl err \<Rightarrow> (Inl (''error creating request: '' @ err), w)
      | Inr req0 \<Rightarrow>
     (let req = Header_Add ''Ocp-Apim-Subscription-Region'' location
                 (Header_Add ''Content-Type'' ''application/json''
                   (Header_Add ''Ocp-Apim-Subscription-Key'' subscriptionKey req0))
      in case client_Do env req w of
        (Inl err, w') \<Rightarrow> (Inl (''error making translation request: '' @ err), w')
      | (Inr resp, w') \<Rightarrow>
     (case Body resp of
        Inl err \<Rightarrow> (Inl (''error reading response body: '' @ err), w')
      | Inr respBody \<Rightarrow>
     if StatusCode resp \<noteq> 200
     then (Inl (''non-OK HTTP status: '' @ itoa (StatusCode resp) @ '', response: '' @ respBody), w')
     else
     (case json_Unmarshal env respBody of
        Inl err \<Rightarrow> (Inl (''error decoding response body: '' @ err), w')
      | Inr res \<Rightarrow>
     (case res of
        (t # _) # _ \<Rightarrow> (Inr t, w')
      | _ \<Rightarrow> (Inl ''no translations found in the response'', w')))))))"

text \<open>The text that \<open>postEvent\<close> builds in \<open>detailsBuilder\<close>; \<open>links\<close> is the order in which
  the loop visits \<open>event.LinkNames\<close>.\<close>

definition detailsBuilder :: "EventInfo \<Rightarrow> (string \<times> string) list \<Rightarrow> string" where
  "detailsBuilder event links =
     (Name event @ '' '') @ (''Location: '' @ Location event @ '' '')
       @ (''Details: '' @ Details event @ '' '')
       @ concat (map (\<lambda>(_, link). link @ '' '') links)
       @ SponsoredMessage event"

text \<open>What a handler writes with \<open>c.JSON\<close>: the status code and the JSON value.\<close>

datatype body = H_error string | H_message string | Event EventInfo

type_synonym reply = "nat \<times> body"

definition uri :: string where
  "uri = ''https://api.cognitive.microsofttranslator.com'' @ ''/translate?api-version=3.0''"

text \<open>
  The loop over \<open>event.Languages\<close>.  \<open>n\<close> counts the \<open>range\<close> loops over maps run so far;
  the result is the text of the error reply, or the event with its translations.
\<close>

fun translateLoop ::
  "'w env \<Rightarrow> string \<Rightarrow> placeholderMap \<Rightarrow> nat \<Rightarrow> string list \<Rightarrow> EventInfo \<Rightarrow> 'w
     \<Rightarrow> (string + EventInfo) \<times> 'w" where
  "translateLoop env preparedText placeholderMap n [] event w = (Inr event, w)"
| "translateLoop env preparedText placeholderMap n (lang # langs) event w =
     (case translateText env preparedText lang uri [] ''eastus'' w of
        (Inl err, w') \<Rightarrow> (Inl (''Error translating to '' @ lang @ '': '' @ err), w')
      | (Inr translatedText, w') \<Rightarrow>
          (let finalText = replacePlaceholdersWithKeywords translatedText
                             (mapRange env n placeholderMap)
           in translateLoop env preparedText placeholderMap (Suc n) langs
                (event\<lparr>Translations := (Translations event)(lang \<mapsto> finalText)\<rparr>) w'))"

text \<open>
  The first part of \<open>postEvent\<close> behind the check of the name: the text is built and its
  keywords are shielded.  The result is the pair \<open>(preparedText, placeholderMap)\<close>.
\<close>

definition prepare :: "'w env \<Rightarrow> EventInfo \<Rightarrow> string \<times> placeholderMap" where
  "prepare env event =
     replaceKeywordsWithPlaceholders
       (detailsBuilder event (mapRange env 0 (LinkNames event))) (Keywords event)"

text \<open>
  \<open>postEvent\<close>: \<open>bound\<close> is what \<open>c.BindJSON\<close> yields, an error or the event; the state is
  the table \<open>events\<close> and the network.
\<close>

definition postEvent ::
  "'w env \<Rightarrow> string + EventInfo \<Rightarrow> (string \<rightharpoonup> EventInfo) \<times> 'w
     \<Rightarrow> reply \<times> (string \<rightharpoonup> EventInfo) \<times> 'w" where
  "postEvent env bound st =
     (case st of (events, w) \<Rightarrow>
      case bound of
        Inl err \<Rightarrow> ((400, H_error err), events, w)
      | Inr event \<Rightarrow>
          if events (Name event) \<noteq> None
          then ((409, H_message ''Event already exists''), events, w)
          else
            (case prepare env event of (preparedText, placeholderMap) \<Rightarrow>
             case translateLoop env preparedText placeholderMap 1 (Languages event)
                       (event\<lparr>Translations := Map.empty\<rparr>) w of
                  (Inl msg, w') \<Rightarrow> ((500, H_error msg), events, w')
                | (Inr event', w') \<Rightarrow>
                    ((201, Event event'), events(Name event \<mapsto> event'), w')))"

text \<open>\<open>c.Query(key)\<close> is the value of the parameter, and the empty string when it is missing.\<close>

definition Query :: "(string \<rightharpoonup> string) \<Rightarrow> string \<Rightarrow> string" where
  "Query params key = (case params key of None \<Rightarrow> [] | Some v \<Rightarrow> v)"

definition getEvent :: "(string \<rightharpoonup> string) \<Rightarrow> (string \<rightharpoonup> EventInfo) \<Rightarrow> reply" where
  "getEvent params events =
     (let eventType = Query params ''type''
      in case events eventType of
           Some event \<Rightarrow> (200, Event event)
         | None \<Rightarrow> (404, H_error ''Event not found''))"

section \<open>An event and a translator for the examples\<close>

text \<open>
  The translator of the examples answers a request for \<open>de\<close> with status 503 and every
  other request with status 200 and the text it was sent; its network state is the list of
  the requests made.  The events of the examples have neither links nor keywords, so their
  maps are empty and every \<open>range\<close> loop visits nothing.
\<close>

definition demoEnv :: "request list env" where
  "demoEnv =
     \<lparr>json_Marshal = (\<lambda>text. Inr text),
      http_NewRequest = (\<lambda>method url body.
         Inr \<lparr>Method = method, URL = url, Header = [], ReqBody = body\<rparr>),
      client_Do = (\<lambda>req log.
         (if Contains (URL req) ''&to=de''
          then Inr \<lparr>StatusCode = 503, Body = Inr ''busy''\<rparr>
          else Inr \<lparr>StatusCode = 200, Body = Inr (ReqBody req)\<rparr>,
          log @ [req])),
      json_Unmarshal = (\<lambda>body. Inr [[body]]),
      mapRange = (\<lambda>n m. [])\<rparr>"

definition fest :: "string list \<Rightarrow> EventInfo" where
  "fest languages =
     \<lparr>Name = ''Fest'', Location = ''Lyon'', Details = ''Fun'', LinkNames = Map.empty,
      SponsoredMessage = [], Languages = languages, Keywords = [],
      Translations = Map.empty\<rparr>"

section \<open>Lemmas about replacing, tokens and the loops\<close>






lemma digit_inj: "a < 10 \<Longrightarrow> b < 10 \<Longrightarrow> digit a = digit b \<Longrightarrow> a = b"
proof -
  assume a: "a < 10" and b: "b < 10" and e: "digit a = digit b"
  have "(of_char (digit a) :: nat) = of_char (digit b)" using e by simp
  then have "(48 + a) mod 256 = (48 + b) mod 256"
    by (simp add: digit_def)
  with a b show "a = b" by simp
qed

lemma digit_isDigit: "d < 10 \<Longrightarrow> isDigit (digit d)"
  by (simp add: isDigit_def digit_def)

lemma itoa_digits: "c \<in> set (itoa n) \<Longrightarrow> isDigit c"
proof (induction n rule: itoa.induct)
  case (1 n)
  show ?case
  proof (cases "n < 10")
    case True
    then show ?thesis
      using "1.prems" digit_isDigit [of n] by (simp add: itoa.simps [of n])
  next
    case False
    then show ?thesis
      using "1.prems" "1.IH" digit_isDigit [of "n mod 10"]
      by (auto simp: itoa.simps [of n])
  qed
qed

lemma itoa_nonempty: "itoa n \<noteq> []"
  by (subst itoa.simps) simp

lemma itoa_inj: "itoa n = itoa m \<Longrightarrow> n = m"
proof (induction n arbitrary: m rule: itoa.induct)
  case (1 n)
  show ?case
  proof (cases "n < 10")
    case n: True
    show ?thesis
    proof (cases "m < 10")
      case True
      with n "1.prems" show ?thesis
        by (auto simp: itoa.simps [of n] itoa.simps [of m] dest: digit_inj)
    next
      case False
      with n "1.prems" itoa_nonempty [of "m div 10"] show ?thesis
        by (auto simp: itoa.simps [of n] itoa.simps [of m] Cons_eq_append_conv)
    qed
  next
    case n: False
    show ?thesis
    proof (cases "m < 10")
      case True
      with n "1.prems" itoa_nonempty [of "n div 10"] show ?thesis
        by (auto simp: itoa.simps [of n] itoa.simps [of m] append_eq_Cons_conv)
    next
      case False
      with n "1.prems" have "itoa (n div 10) = itoa (m div 10)"
        and "digit (n mod 10) = digit (m mod 10)"
        by (auto simp: itoa.simps [of n] itoa.simps [of m])
      then have "n div 10 = m div 10" and "n mod 10 = m mod 10"
        using "1.IH" [OF n] digit_inj [of "n mod 10" "m mod 10"] by auto
      then show ?thesis by (metis div_mult_mod_eq)
    qed
  qed
qed

lemma token_Cons: "Sprintf_KWdPLH i = CHR ''K'' # tl (Sprintf_KWdPLH i)"
  by (simp add: Sprintf_KWdPLH_def)

lemma token_tl: "tl (Sprintf_KWdPLH i) = CHR ''W'' # itoa i @ ''PLH''"
  by (simp add: Sprintf_KWdPLH_def)



lemma P_no_digit: "\<not> isDigit CHR ''P''"
  by (simp add: isDigit_def)

lemma token_tl_chars: "c \<in> set (tl (Sprintf_KWdPLH i)) \<Longrightarrow> tokenChar c"
  using itoa_digits [of c i] by (auto simp: token_tl tokenChar_def)



lemma prefix_upto_mark:
  assumes "x \<notin> set d1" and "x \<notin> set d2"
    and "prefix (d1 @ x # r1) (d2 @ x # r2)"
  shows "d1 = d2"
  using assms
proof (induction d1 arbitrary: d2)
  case Nil
  then show ?case by (cases d2) simp_all
next
  case (Cons a d1)
  show ?case
  proof (cases d2)
    case Nil
    with Cons.prems show ?thesis by simp
  next
    case d2: (Cons b d2')
    with Cons.prems have "a = b" and "prefix (d1 @ x # r1) (d2' @ x # r2)"
      and "x \<notin> set d1" and "x \<notin> set d2'"
      by simp_all
    then show ?thesis
      using Cons.IH [of d2'] d2 by simp
  qed
qed

lemma token_prefix_inj:
  assumes "prefix (Sprintf_KWdPLH i) (Sprintf_KWdPLH j @ y)"
  shows "i = j"
proof -
  have "prefix (itoa i @ CHR ''P'' # ''LH'') (itoa j @ CHR ''P'' # ''LH'' @ y)"
    using assms by (simp add: Sprintf_KWdPLH_def)
  moreover have "CHR ''P'' \<notin> set (itoa i)" and "CHR ''P'' \<notin> set (itoa j)"
    using itoa_digits [of "CHR ''P''"] P_no_digit by blast+
  ultimately have "itoa i = itoa j"
    by (rule prefix_upto_mark [rotated 2])
  then show ?thesis by (rule itoa_inj)
qed

lemma token_inj: "Sprintf_KWdPLH i = Sprintf_KWdPLH j \<Longrightarrow> i = j"
  using token_prefix_inj [of i j "[]"] by simp
















lemma Contains_Nil: "Contains s [] "
  by (cases s) simp_all

lemma Contains_prefix: "prefix sub s \<Longrightarrow> Contains s sub"
  by (cases s) simp_all





subsection \<open>The map that shielding returns\<close>

lemma recorded_index:
  "(p, k) \<in> set (recorded i kws) \<Longrightarrow> \<exists>m. i \<le> m \<and> m < i + length kws \<and> p = Sprintf_KWdPLH m"
proof (induction kws arbitrary: i)
  case Nil
  then show ?case by simp
next
  case (Cons a kws)
  from Cons.prems consider "p = Sprintf_KWdPLH i" | "(p, k) \<in> set (recorded (Suc i) kws)"
    by auto
  then show ?case
  proof cases
    case 1
    then show ?thesis by (intro exI [of _ i]) simp
  next
    case 2
    then obtain m where "Suc i \<le> m" "m < Suc i + length kws" "p = Sprintf_KWdPLH m"
      using Cons.IH by blast
    then show ?thesis by (intro exI [of _ m]) simp
  qed
qed


lemma distinct_recorded: "distinct (map fst (recorded i kws))"
proof (induction kws arbitrary: i)
  case Nil
  show ?case by simp
next
  case (Cons k kws)
  have "Sprintf_KWdPLH i \<notin> fst ` set (recorded (Suc i) kws)"
  proof
    assume "Sprintf_KWdPLH i \<in> fst ` set (recorded (Suc i) kws)"
    then obtain k' where "(Sprintf_KWdPLH i, k') \<in> set (recorded (Suc i) kws)"
      by auto
    then obtain m where "Suc i \<le> m" "Sprintf_KWdPLH i = Sprintf_KWdPLH m"
      using recorded_index by blast
    then show False using token_inj [of i m] by simp
  qed
  then show ?case using Cons.IH [of "Suc i"] by simp
qed

lemma recorded_lookup:
  "m < length kws \<Longrightarrow> map_of (recorded i kws) (Sprintf_KWdPLH (i + m)) = Some (kws ! m)"
proof (induction kws arbitrary: i m)
  case Nil
  then show ?case by simp
next
  case (Cons k kws)
  show ?case
  proof (cases m)
    case 0
    then show ?thesis by simp
  next
    case (Suc m')
    then have "Sprintf_KWdPLH (i + m) \<noteq> Sprintf_KWdPLH i"
      using token_inj [of "i + m" i] by auto
    moreover have "map_of (recorded (Suc i) kws) (Sprintf_KWdPLH (Suc i + m')) = Some (kws ! m')"
      using Cons.prems Suc by (intro Cons.IH) simp
    ultimately show ?thesis using Suc by simp
  qed
qed

lemma shieldLoop_map:
  "snd (shieldLoop i t kws pm) = pm ++ map_of (recorded i kws)"
proof (induction kws arbitrary: i t pm)
  case Nil
  show ?case by simp
next
  case (Cons k kws)
  have "Sprintf_KWdPLH i \<notin> fst ` set (recorded (Suc i) kws)"
    using distinct_recorded [of i "k # kws"] by simp
  then have "map_of (recorded (Suc i) kws) (Sprintf_KWdPLH i) = None"
    by (simp add: map_of_eq_None_iff)
  then have "pm(Sprintf_KWdPLH i \<mapsto> k) ++ map_of (recorded (Suc i) kws)
           = pm ++ map_of (recorded i (k # kws))"
    by (auto simp: map_add_def fun_eq_iff split: option.splits)
  moreover have "snd (shieldLoop i t (k # kws) pm)
      = snd (shieldLoop (Suc i) (ReplaceAll t k (Sprintf_KWdPLH i)) kws (pm(Sprintf_KWdPLH i \<mapsto> k)))"
    by (simp add: Let_def)
  ultimately show ?case by (simp only: Cons.IH)
qed

lemma shield_map:
  "snd (replaceKeywordsWithPlaceholders text kws) = map_of (recorded 0 kws)"
  by (simp add: replaceKeywordsWithPlaceholders_def shieldLoop_map)



lemma token_last: "last (Sprintf_KWdPLH i) = CHR ''H''"
  by (simp add: Sprintf_KWdPLH_def)

lemma token_chars: "c \<in> set (Sprintf_KWdPLH i) \<Longrightarrow> c = CHR ''K'' \<or> tokenChar c"
  using token_tl_chars [of c i] by (subst (asm) token_Cons) auto






subsection \<open>The test \<open>overlapCheck\<close> admits only \<open>overlapFree\<close> keywords\<close>








lemma token_0: "Sprintf_KWdPLH 0 = ''KW0PLH''"
  by code_simp

lemma token_1: "Sprintf_KWdPLH (Suc 0) = ''KW1PLH''"
  by code_simp

lemma rangeOrder_empty: "rangeOrder Map.empty es \<longleftrightarrow> es = []"
  by (cases es) (auto simp: rangeOrder_def)

lemma shield_dom:
  "dom (snd (replaceKeywordsWithPlaceholders t kws)) = Sprintf_KWdPLH ` {..<length kws}"
proof -
  have "fst ` set (recorded 0 kws) = Sprintf_KWdPLH ` {..<length kws}"
  proof (intro set_eqI iffI)
    fix p assume "p \<in> fst ` set (recorded 0 kws)"
    then obtain k where "(p, k) \<in> set (recorded 0 kws)" by auto
    then show "p \<in> Sprintf_KWdPLH ` {..<length kws}"
      using recorded_index [of p k 0 kws] by auto
  next
    fix p assume "p \<in> Sprintf_KWdPLH ` {..<length kws}"
    then obtain m where "m < length kws" "p = Sprintf_KWdPLH m" by auto
    then have "map_of (recorded 0 kws) p = Some (kws ! m)"
      using recorded_lookup [of m kws 0] by simp
    then show "p \<in> fst ` set (recorded 0 kws)"
      by (auto dest: map_of_SomeD intro: rev_image_eqI)
  qed
  then show ?thesis by (simp add: shield_map dom_map_of_conv_image_fst)
qed

lemma shield_lookup:
  "i < length kws \<Longrightarrow> snd (replaceKeywordsWithPlaceholders t kws) (Sprintf_KWdPLH i) = Some (kws ! i)"
  using recorded_lookup [of i kws 0] by (simp add: shield_map)

lemma shield_inj:
  assumes "distinct kws"
  shows "inj_on (snd (replaceKeywordsWithPlaceholders t kws))
           (dom (snd (replaceKeywordsWithPlaceholders t kws)))"
proof (rule inj_onI)
  let ?m = "snd (replaceKeywordsWithPlaceholders t kws)"
  fix p q assume "p \<in> dom ?m" "q \<in> dom ?m" and e: "?m p = ?m q"
  then obtain i j where i: "i < length kws" "p = Sprintf_KWdPLH i"
    and j: "j < length kws" "q = Sprintf_KWdPLH j"
    unfolding shield_dom by auto
  then have "kws ! i = kws ! j"
    using e shield_lookup [of i kws t] shield_lookup [of j kws t] by simp
  then have "i = j"
    using assms i(1) j(1) by (simp add: nth_eq_iff_index_eq)
  then show "p = q" using i j by simp
qed















text \<open>A translation succeeds only if the request was made and answered with status 200
  and a body that decodes to at least one translation.\<close>

lemma translateText_succeeds_only_if:
  assumes "translateText env t lang url key loc w = (Inr translated, w')"
  shows "\<exists>jsonBody req0 resp respBody ts rest.
           json_Marshal env t = Inr jsonBody
         \<and> http_NewRequest env ''POST'' (url @ ''&to='' @ lang) jsonBody = Inr req0
         \<and> client_Do env
              (Header_Add ''Ocp-Apim-Subscription-Region'' loc
                (Header_Add ''Content-Type'' ''application/json''
                  (Header_Add ''Ocp-Apim-Subscription-Key'' key req0))) w = (Inr resp, w')
         \<and> StatusCode resp = 200 \<and> Body resp = Inr respBody
         \<and> json_Unmarshal env respBody = Inr ((translated # ts) # rest)"
  using assms unfolding translateText_def Let_def
  by (auto split: sum.splits prod.splits if_splits list.splits)

text \<open>The loop over a list of languages in two parts.\<close>

lemma translateLoop_append:
  "translateLoop env pt pm n (xs @ ys) ev w =
     (case translateLoop env pt pm n xs ev w of
        (Inl msg, w') \<Rightarrow> (Inl msg, w')
      | (Inr ev', w') \<Rightarrow> translateLoop env pt pm (n + length xs) ys ev' w')"
proof (induction xs arbitrary: n ev w)
  case Nil
  show ?case by simp
next
  case (Cons x xs)
  show ?case
    by (simp add: Cons split: prod.splits sum.splits)
qed

section \<open>The claims\<close>

subsection \<open>C1: shielding and unshielding as a round trip\<close>




subsection \<open>C2: the keywords are shielded in the order of the list\<close>




subsection \<open>C3: the first failing language aborts the request\<close>

text \<open>
  C3.  Let the name of the event be free, let the translator have succeeded for the
  languages \<open>before\<close> and let \<open>translateText\<close> return an error \<open>cause\<close> for the next language
  \<open>lang\<close>.  Then \<open>postEvent\<close> replies with status 500 and the one error
  \<open>Error translating to lang: cause\<close>, which carries no translation, the table of events is
  unchanged, and the languages \<open>rest\<close> behind \<open>lang\<close> are not translated any more: the network
  is left as the failing call left it.  And \<open>translateText\<close> succeeds only if the request
  was answered with status 200 and a body that decodes to at least one translation: it
  returns an error when the transport fails, the status is another one, the body does not
  decode or holds no translation.
\<close>

theorem postEvent_aborts_on_first_failure:
  assumes "events (Name event) = None"
    and "Languages event = before @ lang # rest"
    and "translateLoop env (fst (prepare env event)) (snd (prepare env event)) 1 before
           (event\<lparr>Translations := Map.empty\<rparr>) w = (Inr event1, w1)"
    and "translateText env (fst (prepare env event)) lang uri [] ''eastus'' w1 = (Inl cause, w2)"
  shows "postEvent env (Inr event) (events, w)
           = ((500, H_error (''Error translating to '' @ lang @ '': '' @ cause)), events, w2)
       \<and> (\<forall>x l w0 translated w0'.
            translateText env x l uri [] ''eastus'' w0 = (Inr translated, w0') \<longrightarrow>
            (\<exists>jsonBody req0 resp respBody ts more.
               json_Marshal env x = Inr jsonBody
             \<and> http_NewRequest env ''POST'' (uri @ ''&to='' @ l) jsonBody = Inr req0
             \<and> client_Do env
                  (Header_Add ''Ocp-Apim-Subscription-Region'' ''eastus''
                    (Header_Add ''Content-Type'' ''application/json''
                      (Header_Add ''Ocp-Apim-Subscription-Key'' [] req0))) w0 = (Inr resp, w0')
             \<and> StatusCode resp = 200 \<and> Body resp = Inr respBody
             \<and> json_Unmarshal env respBody = Inr ((translated # ts) # more)))"
proof (intro conjI allI impI)
  obtain pt pm where p: "prepare env event = (pt, pm)" by (cases "prepare env event")
  have "translateLoop env pt pm 1 (Languages event) (event\<lparr>Translations := Map.empty\<rparr>) w
      = (Inl (''Error translating to '' @ lang @ '': '' @ cause), w2)"
    using assms(3,4) unfolding p assms(2) translateLoop_append by simp
  then show "postEvent env (Inr event) (events, w)
           = ((500, H_error (''Error translating to '' @ lang @ '': '' @ cause)), events, w2)"
    using assms(1) by (simp add: postEvent_def p)
next
  fix x l w0 translated w0'
  assume "translateText env x l uri [] ''eastus'' w0 = (Inr translated, w0')"
  then show "\<exists>jsonBody req0 resp respBody ts more.
               json_Marshal env x = Inr jsonBody
             \<and> http_NewRequest env ''POST'' (uri @ ''&to='' @ l) jsonBody = Inr req0
             \<and> client_Do env
                  (Header_Add ''Ocp-Apim-Subscription-Region'' ''eastus''
                    (Header_Add ''Content-Type'' ''application/json''
                      (Header_Add ''Ocp-Apim-Subscription-Key'' [] req0))) w0 = (Inr resp, w0')
             \<and> StatusCode resp = 200 \<and> Body resp = Inr respBody
             \<and> json_Unmarshal env respBody = Inr ((translated # ts) # more)"
    by (rule translateText_succeeds_only_if)
qed

text \<open>The languages \<open>fr\<close> and \<open>de\<close>, with a translator that fails on \<open>de\<close>.\<close>

theorem postEvent_aborts_on_first_failure_witness:
  "Languages (fest [''fr'', ''de'']) = [''fr''] @ ''de'' # []
   \<and> postEvent demoEnv (Inr (fest [''fr'', ''de''])) (Map.empty, [])
     = ((500, H_error (''Error translating to '' @ ''de'' @ '': ''
                         @ ''non-OK HTTP status: 503, response: busy'')),
        Map.empty,
        snd (translateText demoEnv (fst (prepare demoEnv (fest [''fr'', ''de'']))) ''de'' uri []
               ''eastus''
               (snd (translateLoop demoEnv (fst (prepare demoEnv (fest [''fr'', ''de''])))
                       (snd (prepare demoEnv (fest [''fr'', ''de'']))) 1 [''fr'']
                       ((fest [''fr'', ''de''])\<lparr>Translations := Map.empty\<rparr>) []))))"
proof -
  let ?ev = "fest [''fr'', ''de'']"
  let ?run = "translateLoop demoEnv (fst (prepare demoEnv ?ev)) (snd (prepare demoEnv ?ev)) 1
                [''fr''] (?ev\<lparr>Translations := Map.empty\<rparr>) []"
  let ?call = "translateText demoEnv (fst (prepare demoEnv ?ev)) ''de'' uri [] ''eastus'' (snd ?run)"
  have h1: "Map.empty (Name ?ev) = None" by simp
  have h2: "Languages ?ev = [''fr''] @ ''de'' # []" by (simp add: fest_def)
  have "\<not> isl (fst ?run)" by code_simp
  then obtain event1 where h3: "?run = (Inr event1, snd ?run)"
    by (cases ?run; cases "fst ?run") auto
  have "fst ?call = Inl ''non-OK HTTP status: 503, response: busy''" by code_simp
  then have h4: "?call = (Inl ''non-OK HTTP status: 503, response: busy'', snd ?call)"
    by (cases ?call) simp
  from postEvent_aborts_on_first_failure [OF h1 h2 h3 h4, THEN conjunct1] h2
  show ?thesis by (intro conjI)
qed

subsection \<open>C4: the text of the event Fest\<close>

text \<open>
  C4.  For an event with name \<open>Fest\<close>, location \<open>Lyon\<close>, details \<open>Fun\<close>, no links and an empty
  sponsored message, the text built is \<open>Fest Location: Lyon Details: Fun\<close> followed by one
  space, before any keyword is replaced.
\<close>

theorem detailsBuilder_Fest:
  assumes "Name event = ''Fest''" and "Location event = ''Lyon''" and "Details event = ''Fun''"
    and "LinkNames event = Map.empty" and "SponsoredMessage event = []"
    and "rangeOrder (LinkNames event) links"
  shows "detailsBuilder event links = ''Fest Location: Lyon Details: Fun ''"
proof -
  have "links = []" using assms(4,6) by (simp add: rangeOrder_empty)
  then show ?thesis
    using assms(1,2,3,5) by (simp add: detailsBuilder_def)
qed

text \<open>The event of the examples.\<close>

theorem detailsBuilder_Fest_witness:
  "rangeOrder (LinkNames (fest [''fr''])) []
   \<and> detailsBuilder (fest [''fr'']) [] = ''Fest Location: Lyon Details: Fun ''"
proof -
  have f: "Name (fest [''fr'']) = ''Fest''" "Location (fest [''fr'']) = ''Lyon''"
    "Details (fest [''fr'']) = ''Fun''" "LinkNames (fest [''fr'']) = Map.empty"
    "SponsoredMessage (fest [''fr'']) = []"
    by (simp_all add: fest_def)
  have r: "rangeOrder (LinkNames (fest [''fr''])) []"
    by (simp add: fest_def rangeOrder_def)
  from detailsBuilder_Fest [OF f r] r show ?thesis by (intro conjI)
qed

subsection \<open>C5: no keywords\<close>

text \<open>
  C5.  With the empty list of keywords, shielding returns the text unchanged and the empty
  map; a \<open>range\<close> loop over that map visits nothing, and unshielding with it returns any
  text unchanged, the shielded text in particular.
\<close>

theorem empty_keywords_identity:
  "replaceKeywordsWithPlaceholders t [] = (t, Map.empty)
   \<and> (rangeOrder (snd (replaceKeywordsWithPlaceholders t [])) es \<longrightarrow>
        replacePlaceholdersWithKeywords x es = x
        \<and> replacePlaceholdersWithKeywords (fst (replaceKeywordsWithPlaceholders t [])) es = t)"
  by (simp add: replaceKeywordsWithPlaceholders_def rangeOrder_empty
      replacePlaceholdersWithKeywords_def)

text \<open>The empty order is the order of the empty map.\<close>

theorem empty_keywords_identity_witness:
  "rangeOrder (snd (replaceKeywordsWithPlaceholders ''Fest in Lyon'' [])) []
   \<and> replacePlaceholdersWithKeywords ''Fete a Lyon'' [] = ''Fete a Lyon''
   \<and> replacePlaceholdersWithKeywords (fst (replaceKeywordsWithPlaceholders ''Fest in Lyon'' [])) []
       = ''Fest in Lyon''"
proof -
  have h: "rangeOrder (snd (replaceKeywordsWithPlaceholders ''Fest in Lyon'' [])) []"
    by (simp add: replaceKeywordsWithPlaceholders_def rangeOrder_def)
  show ?thesis
    using h empty_keywords_identity [of "''Fest in Lyon''" "[]" "''Fete a Lyon''"] by blast
qed

subsection \<open>C6: the order in which the map is visited\<close>




subsection \<open>C7: no languages\<close>

text \<open>
  C7.  For an event whose name is free and whose list of languages is empty, \<open>postEvent\<close>
  succeeds with status 201; the event it returns and stores has the empty map of
  translations, and the network is returned as it was, whatever the translator is: no
  request is made.
\<close>

theorem postEvent_no_languages:
  assumes "events (Name event) = None" and "Languages event = []"
  shows "postEvent env (Inr event) (events, w)
       = ((201, Event (event\<lparr>Translations := Map.empty\<rparr>)),
          events(Name event \<mapsto> event\<lparr>Translations := Map.empty\<rparr>), w)"
proof -
  obtain pt pm where p: "prepare env event = (pt, pm)" by (cases "prepare env event")
  show ?thesis
    using assms by (simp add: postEvent_def p)
qed

text \<open>With the translator of the examples the list of requests made stays empty.\<close>

theorem postEvent_no_languages_witness:
  "Languages (fest []) = []
   \<and> postEvent demoEnv (Inr (fest [])) (Map.empty, [])
     = ((201, Event ((fest [])\<lparr>Translations := Map.empty\<rparr>)),
        Map.empty(Name (fest []) \<mapsto> (fest [])\<lparr>Translations := Map.empty\<rparr>), [])"
proof -
  have h1: "Map.empty (Name (fest [])) = None" by simp
  have h2: "Languages (fest []) = []" by (simp add: fest_def)
  from postEvent_no_languages [OF h1 h2] h2 show ?thesis by (intro conjI)
qed

subsection \<open>C8: the entries of the returned map\<close>

text \<open>
  C8 (amended).  The keys of the map that shielding returns are the tokens of the indices
  below the number of keywords; the token of index \<open>i\<close> is sent to the keyword at index \<open>i\<close>
  and to nothing else; tokens of different indices differ, so no two positions of the
  list share a token.  If the keywords are pairwise distinct, no two tokens are sent to the
  same keyword.
\<close>

theorem placeholderMap_entries:
  "dom (snd (replaceKeywordsWithPlaceholders t kws)) = Sprintf_KWdPLH ` {..<length kws}
   \<and> (\<forall>i<length kws. snd (replaceKeywordsWithPlaceholders t kws) (Sprintf_KWdPLH i) = Some (kws ! i))
   \<and> (\<forall>i j. Sprintf_KWdPLH i = Sprintf_KWdPLH j \<longrightarrow> i = j)
   \<and> (distinct kws \<longrightarrow>
        inj_on (snd (replaceKeywordsWithPlaceholders t kws))
               (dom (snd (replaceKeywordsWithPlaceholders t kws))))"
proof (intro conjI allI impI)
  show "dom (snd (replaceKeywordsWithPlaceholders t kws)) = Sprintf_KWdPLH ` {..<length kws}"
    by (rule shield_dom)
  show "snd (replaceKeywordsWithPlaceholders t kws) (Sprintf_KWdPLH i) = Some (kws ! i)"
    if "i < length kws" for i
    using that by (rule shield_lookup)
  show "i = j" if "Sprintf_KWdPLH i = Sprintf_KWdPLH j" for i j
    using that by (rule token_inj)
  show "inj_on (snd (replaceKeywordsWithPlaceholders t kws))
          (dom (snd (replaceKeywordsWithPlaceholders t kws)))" if "distinct kws"
    using that by (rule shield_inj)
qed

text \<open>The two distinct keywords \<open>Fest\<close> and \<open>Lyon\<close>.\<close>

theorem placeholderMap_entries_witness:
  "distinct [''Fest'', ''Lyon'']
   \<and> snd (replaceKeywordsWithPlaceholders ''Fest in Lyon'' [''Fest'', ''Lyon'']) ''KW0PLH'' = Some ''Fest''
   \<and> snd (replaceKeywordsWithPlaceholders ''Fest in Lyon'' [''Fest'', ''Lyon'']) ''KW1PLH'' = Some ''Lyon''
   \<and> inj_on (snd (replaceKeywordsWithPlaceholders ''Fest in Lyon'' [''Fest'', ''Lyon'']))
             (dom (snd (replaceKeywordsWithPlaceholders ''Fest in Lyon'' [''Fest'', ''Lyon''])))"
proof -
  let ?m = "snd (replaceKeywordsWithPlaceholders ''Fest in Lyon'' [''Fest'', ''Lyon''])"
  note T = placeholderMap_entries [of "''Fest in Lyon''" "[''Fest'', ''Lyon'']"]
  have d: "distinct [''Fest'', ''Lyon'']" by simp
  from T have look: "\<forall>i<length [''Fest'', ''Lyon'']. ?m (Sprintf_KWdPLH i) = Some ([''Fest'', ''Lyon''] ! i)"
    by (elim conjE)
  have "?m (Sprintf_KWdPLH 0) = Some ''Fest''"
    using look [rule_format, of 0] by simp
  moreover have "?m (Sprintf_KWdPLH (Suc 0)) = Some ''Lyon''"
    using look [rule_format, of "Suc 0"] by simp
  moreover from T d have "inj_on ?m (dom ?m)"
    by (elim conjE) (erule mp)
  ultimately show ?thesis
    using d unfolding token_0 token_1 by (intro conjI)
qed

text \<open>
  As stated, for every list of keywords, the claim fails: when the keyword \<open>a\<close> is listed
  twice, two tokens are sent to it.
\<close>

theorem placeholderMap_one_to_one_counterexample:
  "snd (replaceKeywordsWithPlaceholders ''a'' [''a'', ''a'']) ''KW0PLH'' = Some ''a''
   \<and> snd (replaceKeywordsWithPlaceholders ''a'' [''a'', ''a'']) ''KW1PLH'' = Some ''a''
   \<and> ''KW0PLH'' \<noteq> ''KW1PLH''
   \<and> \<not> inj_on (snd (replaceKeywordsWithPlaceholders ''a'' [''a'', ''a'']))
               (dom (snd (replaceKeywordsWithPlaceholders ''a'' [''a'', ''a''])))"
proof -
  let ?m = "snd (replaceKeywordsWithPlaceholders ''a'' [''a'', ''a''])"
  have "?m (Sprintf_KWdPLH 0) = Some ([''a'', ''a''] ! 0)"
    by (rule shield_lookup) simp
  then have 0: "?m ''KW0PLH'' = Some ''a''"
    unfolding token_0 by simp
  have "?m (Sprintf_KWdPLH (Suc 0)) = Some ([''a'', ''a''] ! Suc 0)"
    by (rule shield_lookup) simp
  then have 1: "?m ''KW1PLH'' = Some ''a''"
    unfolding token_1 by simp
  have ne: "''KW0PLH'' \<noteq> ''KW1PLH''" by simp
  have ni: "\<not> inj_on ?m (dom ?m)"
  proof
    assume "inj_on ?m (dom ?m)"
    moreover have "?m ''KW0PLH'' = ?m ''KW1PLH''"
      by (simp only: 0 1)
    moreover have "''KW0PLH'' \<in> dom ?m" "''KW1PLH'' \<in> dom ?m"
      by (simp_all only: domIff 0 1 option.distinct not_False_eq_True)
    ultimately have "''KW0PLH'' = ''KW1PLH''"
      by (rule inj_onD)
    with ne show False by (rule notE)
  qed
  from 0 1 ne ni show ?thesis by (intro conjI)
qed

subsection \<open>C9: a name that is already stored\<close>

text \<open>
  C9.  When an event is stored under the name of the event to create, \<open>postEvent\<close> replies
  with status 409 and returns the table of events and the network as they were: no entry is
  changed and no request is made.
\<close>

theorem postEvent_conflict:
  assumes "events (Name event) = Some stored"
  shows "postEvent env (Inr event) (events, w)
       = ((409, H_message ''Event already exists''), events, w)"
  using assms by (simp add: postEvent_def)

text \<open>A second event named \<open>Fest\<close>.\<close>

theorem postEvent_conflict_witness:
  "[''Fest'' \<mapsto> fest [''fr'']] (Name (fest [''de''])) = Some (fest [''fr''])
   \<and> postEvent demoEnv (Inr (fest [''de''])) ([''Fest'' \<mapsto> fest [''fr'']], [])
     = ((409, H_message ''Event already exists''), [''Fest'' \<mapsto> fest [''fr'']], [])"
proof -
  have h: "[''Fest'' \<mapsto> fest [''fr'']] (Name (fest [''de''])) = Some (fest [''fr''])"
    by (simp add: fest_def)
  from postEvent_conflict
         [where events = "[''Fest'' \<mapsto> fest [''fr'']]" and event = "fest [''de'']", OF h] h
  show ?thesis by (intro conjI)
qed

subsection \<open>C10: retrieving without a type\<close>

text \<open>
  C10.  When the parameter \<open>type\<close> is missing or empty, \<open>getEvent\<close> looks the empty name up:
  it replies with status 404 unless an event is stored under the empty name, and with
  status 200 and that event if one is.
\<close>

theorem getEvent_without_type:
  assumes "params ''type'' = None \<or> params ''type'' = Some []"
  shows "getEvent params events =
           (case events [] of
              None \<Rightarrow> (404, H_error ''Event not found'')
            | Some event \<Rightarrow> (200, Event event))"
  using assms by (auto simp: getEvent_def Query_def split: option.splits)

text \<open>A missing parameter on the empty table, and an empty one on a table with an event of
  the empty name.\<close>

theorem getEvent_without_type_witness:
  "getEvent Map.empty Map.empty = (404, H_error ''Event not found'')
   \<and> getEvent [''type'' \<mapsto> []] [[] \<mapsto> fest [''fr'']] = (200, Event (fest [''fr'']))"
proof -
  have a: "(Map.empty :: string \<rightharpoonup> string) ''type'' = None \<or> (Map.empty :: string \<rightharpoonup> string) ''type'' = Some []"
    by simp
  have b: "[''type'' \<mapsto> []] ''type'' = None \<or> [''type'' \<mapsto> []] ''type'' = Some ([] :: string)"
    by simp
  from getEvent_without_type [where params = Map.empty and events = Map.empty, OF a]
    getEvent_without_type
      [where params = "[''type'' \<mapsto> []]" and events = "[[] \<mapsto> fest [''fr'']]", OF b]
  show ?thesis by simp
qed

end
